theory Spec2Isabelle
  imports Complex_Main "HOL-Library.Multiset"
begin

section \<open>The rendering queue and the viewer's page records\<close>

text \<open>
  \<^verbatim>\<open>src/lib/core/rendering_queue.js\<close> and the page bookkeeping of the core viewer.
  Page numbers are JavaScript integers (\<open>int\<close>), the display scale is a number
  (\<open>real\<close>). A page record that was never rendered has no \<open>renderedScale\<close>
  (\<open>undefined\<close> in the source, \<open>None\<close> here).
\<close>

datatype RenderingStates = INITIAL | RUNNING | PAUSED | FINISHED

record pageData =
  renderingState :: RenderingStates
  renderedScale :: "real option"

text \<open>The object returned by \<open>getVisiblePages()\<close>; \<open>first\<close> and \<open>last\<close> may be \<open>null\<close>.\<close>

record visiblePages =
  first_page :: "int option"
  last_page :: "int option"
  scrollDirection :: string

text \<open>
  The fields of the core viewer that the queue reads and \<open>renderPage\<close> writes.
  \<open>visible\<close> is what \<open>getVisiblePages()\<close> answers at the moment (it is computed from the
  scroll geometry of the host document).
\<close>

record viewer =
  pages :: "int \<rightharpoonup> pageData"
  pageCount :: int
  displayScale :: real
  visible :: visiblePages

record renderingQueue =
  pdfViewer :: "viewer option"
  highestPriorityPage :: "int option"
  idleTimeout :: bool

definition isPageRendered :: "viewer \<Rightarrow> int \<Rightarrow> bool" where
  "isPageRendered v pageNumber =
     (case pages v pageNumber of
        None \<Rightarrow> False
      | Some pd \<Rightarrow>
          if renderingState pd = RUNNING then True
          else if renderingState pd = FINISHED then renderedScale pd = Some (displayScale v)
          else False)"

text \<open>The two loops over the visible range, \<open>page++\<close> and \<open>page--\<close>.\<close>

function scanDown :: "viewer \<Rightarrow> int \<Rightarrow> int \<Rightarrow> int option" where
  "scanDown v page l =
     (if page \<le> l
      then (if \<not> isPageRendered v page then Some page else scanDown v (page + 1) l)
      else None)"
  by pat_completeness auto
termination
  by (relation "measure (\<lambda>(v, page, l). nat (l + 1 - page))") auto

function scanUp :: "viewer \<Rightarrow> int \<Rightarrow> int \<Rightarrow> int option" where
  "scanUp v page f =
     (if page \<ge> f
      then (if \<not> isPageRendered v page then Some page else scanUp v (page - 1) f)
      else None)"
  by pat_completeness auto
termination
  by (relation "measure (\<lambda>(v, page, f). nat (page + 1 - f))") auto

definition preRenderCount :: int where
  "preRenderCount = 2"

text \<open>The two pre-render loops, \<open>for (let i = 1; i <= preRenderCount; i++)\<close>.\<close>

function preRenderAfter :: "viewer \<Rightarrow> int \<Rightarrow> int \<Rightarrow> int option" where
  "preRenderAfter v l i =
     (if i \<le> preRenderCount
      then (let nextPage = l + i in
            if nextPage \<le> pageCount v \<and> \<not> isPageRendered v nextPage then Some nextPage
            else preRenderAfter v l (i + 1))
      else None)"
  by pat_completeness auto
termination
  by (relation "measure (\<lambda>(v, l, i). nat (preRenderCount + 1 - i))") auto

function preRenderBefore :: "viewer \<Rightarrow> int \<Rightarrow> int \<Rightarrow> int option" where
  "preRenderBefore v f i =
     (if i \<le> preRenderCount
      then (let prevPage = f - i in
            if prevPage \<ge> 1 \<and> \<not> isPageRendered v prevPage then Some prevPage
            else preRenderBefore v f (i + 1))
      else None)"
  by pat_completeness auto
termination
  by (relation "measure (\<lambda>(v, f, i). nat (preRenderCount + 1 - i))") auto

declare scanDown.simps [simp del] scanUp.simps [simp del]
declare preRenderAfter.simps [simp del] preRenderBefore.simps [simp del]

text \<open>
  \<open>_getHighestPriorityPage(visiblePages)\<close>. The argument is optional: when it is missing
  (\<open>None\<close>) the viewer is asked for the visible pages.
\<close>

definition getHighestPriorityPage :: "renderingQueue \<Rightarrow> visiblePages option \<Rightarrow> int option" where
  "getHighestPriorityPage q visiblePages =
     (case pdfViewer q of
        None \<Rightarrow> None
      | Some v \<Rightarrow>
          (let vp = (case visiblePages of Some x \<Rightarrow> x | None \<Rightarrow> visible v) in
           case (first_page vp, last_page vp) of
             (Some f, Some l) \<Rightarrow>
               (case (if scrollDirection vp = ''down'' then scanDown v f l else scanUp v l f) of
                  Some page \<Rightarrow> Some page
                | None \<Rightarrow>
                    (case preRenderAfter v l 1 of
                       Some nextPage \<Rightarrow> Some nextPage
                     | None \<Rightarrow> preRenderBefore v f 1))
           | _ \<Rightarrow> None))"


text \<open>
  \<open>renderPage(pageNumber)\<close> of the core viewer, in its three parts. \<open>renderPage_start\<close> is
  the code before the first \<open>await\<close>: it returns at once (\<open>None\<close>) when there is no page
  record, when the page is \<open>RUNNING\<close>, or when it is \<open>FINISHED\<close> at the current display
  scale; otherwise the page becomes \<open>RUNNING\<close>. \<open>renderPage_finish\<close> is the end of the
  \<open>try\<close> block, \<open>renderPage_fail\<close> the \<open>catch\<close> block (which rethrows). The source
  reads the display scale while the render is under way and records it at the end;
  nothing modelled here changes the scale in between.
\<close>

definition renderPage_start :: "int \<Rightarrow> viewer \<Rightarrow> viewer option" where
  "renderPage_start pageNumber v =
     (case pages v pageNumber of
        None \<Rightarrow> None
      | Some pd \<Rightarrow>
          if renderingState pd = RUNNING then None
          else if renderingState pd = FINISHED \<and> renderedScale pd = Some (displayScale v) then None
          else Some (v\<lparr>pages := (pages v)(pageNumber \<mapsto> pd\<lparr>renderingState := RUNNING\<rparr>)\<rparr>))"

definition renderPage_finish :: "int \<Rightarrow> viewer \<Rightarrow> viewer" where
  "renderPage_finish pageNumber v =
     (case pages v pageNumber of
        None \<Rightarrow> v
      | Some pd \<Rightarrow>
          v\<lparr>pages := (pages v)(pageNumber \<mapsto>
                pd\<lparr>renderedScale := Some (displayScale v), renderingState := FINISHED\<rparr>)\<rparr>)"

definition renderPage_fail :: "int \<Rightarrow> viewer \<Rightarrow> viewer" where
  "renderPage_fail pageNumber v =
     (case pages v pageNumber of
        None \<Rightarrow> v
      | Some pd \<Rightarrow> v\<lparr>pages := (pages v)(pageNumber \<mapsto> pd\<lparr>renderingState := INITIAL\<rparr>)\<rparr>)"

text \<open>
  How an awaited \<open>renderPage\<close> call ends: it returned without rendering, it rendered the
  page, or it threw.
\<close>

datatype renderResult = Returned | Rendered | Threw

text \<open>
  One whole \<open>renderPage\<close> call with nothing else running in between. Whether the decoding
  and drawing of a page succeeds is decided outside the viewer; \<open>renders\<close> says it for
  every page.
\<close>

definition renderPage :: "(int \<Rightarrow> bool) \<Rightarrow> int \<Rightarrow> viewer \<Rightarrow> renderResult \<times> viewer" where
  "renderPage renders pageNumber v =
     (case renderPage_start pageNumber v of
        None \<Rightarrow> (Returned, v)
      | Some v1 \<Rightarrow>
          if renders pageNumber then (Rendered, renderPage_finish pageNumber v1)
          else (Threw, renderPage_fail pageNumber v1))"

datatype schedulerEvent = PageRendered int | PageSkipped int | RenderError int | IdleScheduled

text \<open>
  \<open>renderHighestPriority(visiblePages)\<close> run to its end, every \<open>await\<close> completing before
  anything else happens. The function calls itself after each successful render, with no
  argument; the recursion need not end (a selected page without a page record is selected
  again and again), so the model counts the calls it may still make and answers \<open>None\<close>
  when that number is used up. The result is the list of what happened, in order, and the
  queue afterwards.
\<close>

fun renderHighestPriority ::
  "nat \<Rightarrow> (int \<Rightarrow> bool) \<Rightarrow> visiblePages option \<Rightarrow> renderingQueue
     \<Rightarrow> (schedulerEvent list \<times> renderingQueue) option" where
  "renderHighestPriority 0 renders visiblePages q = None"
| "renderHighestPriority (Suc n) renders visiblePages q =
     (case pdfViewer q of
        None \<Rightarrow> Some ([], q)
      | Some v \<Rightarrow>
          (let q1 = q\<lparr>idleTimeout := False\<rparr> in
           case getHighestPriorityPage q1 visiblePages of
             Some pageToRender \<Rightarrow>
               (case renderPage renders pageToRender v of
                  (Threw, v') \<Rightarrow>
                    Some ([RenderError pageToRender],
                          q1\<lparr>pdfViewer := Some v', highestPriorityPage := None\<rparr>)
                | (r, v') \<Rightarrow>
                    (case renderHighestPriority n renders None
                            (q1\<lparr>pdfViewer := Some v', highestPriorityPage := None\<rparr>) of
                       None \<Rightarrow> None
                     | Some (evs, q') \<Rightarrow>
                         Some ((if r = Rendered then PageRendered pageToRender
                                else PageSkipped pageToRender) # evs, q')))
           | None \<Rightarrow> Some ([IdleScheduled], q1\<lparr>idleTimeout := True\<rparr>)))"

text \<open>
  \<open>_createPagePlaceholders\<close>: a record in state \<open>INITIAL\<close> for every page from 1 to
  \<open>pageCount\<close>, and the viewer as \<open>load\<close> leaves it.
\<close>

definition createPagePlaceholders :: "int \<Rightarrow> (int \<rightharpoonup> pageData)" where
  "createPagePlaceholders n =
     (\<lambda>pageNum. if 1 \<le> pageNum \<and> pageNum \<le> n
                then Some \<lparr>renderingState = INITIAL, renderedScale = None\<rparr> else None)"

definition loadedViewer :: "int \<Rightarrow> real \<Rightarrow> visiblePages \<Rightarrow> viewer" where
  "loadedViewer n scale vp =
     \<lparr>pages = createPagePlaceholders n, pageCount = n, displayScale = scale, visible = vp\<rparr>"

definition loadedQueue :: "int \<Rightarrow> real \<Rightarrow> visiblePages \<Rightarrow> renderingQueue" where
  "loadedQueue n scale vp =
     \<lparr>pdfViewer = Some (loadedViewer n scale vp), highestPriorityPage = None, idleTimeout = False\<rparr>"

text \<open>
  The order of the candidates as the specification words it: the visible range, ascending
  when scrolling down and descending otherwise, then the two pages after \<open>last\<close> that are
  not beyond the last page of the document, then the two pages before \<open>first\<close> that are
  not before page 1.
\<close>

definition candidateOrder :: "int \<Rightarrow> int \<Rightarrow> string \<Rightarrow> int \<Rightarrow> int list" where
  "candidateOrder f l dir n =
     (if dir = ''down'' then [f..l] else rev [f..l])
     @ filter (\<lambda>p. p \<le> n) [l + 1, l + 2]
     @ filter (\<lambda>p. 1 \<le> p) [f - 1, f - 2]"


subsection \<open>Renders in flight\<close>

text \<open>
  The same code with its \<open>await\<close> made visible. A call of \<open>renderHighestPriority\<close> runs
  up to \<open>await this.pdfViewer.renderPage(pageToRender)\<close> and is suspended there; the host
  may deliver further events (scroll, resize) before the promise settles. \<open>awaiting\<close> lists
  the suspended calls: the page each one waits for, and whether \<open>renderPage\<close> went on to
  render it (\<open>True\<close>) or returned at once (\<open>False\<close>).
\<close>

record system =
  queue :: renderingQueue
  awaiting :: "(int \<times> bool) list"

text \<open>\<open>renderHighestPriority(visiblePages)\<close> up to its \<open>await\<close>.\<close>

definition renderHighestPriority_call :: "visiblePages option \<Rightarrow> system \<Rightarrow> system" where
  "renderHighestPriority_call visiblePages s =
     (case pdfViewer (queue s) of
        None \<Rightarrow> s
      | Some v \<Rightarrow>
          (let q1 = (queue s)\<lparr>idleTimeout := False\<rparr> in
           case getHighestPriorityPage q1 visiblePages of
             Some pageToRender \<Rightarrow>
               (case renderPage_start pageToRender v of
                  Some v1 \<Rightarrow>
                    s\<lparr>queue := q1\<lparr>pdfViewer := Some v1, highestPriorityPage := Some pageToRender\<rparr>,
                      awaiting := awaiting s @ [(pageToRender, True)]\<rparr>
                | None \<Rightarrow>
                    s\<lparr>queue := q1\<lparr>highestPriorityPage := Some pageToRender\<rparr>,
                      awaiting := awaiting s @ [(pageToRender, False)]\<rparr>)
           | None \<Rightarrow> s\<lparr>queue := q1\<lparr>idleTimeout := True\<rparr>\<rparr>))"

text \<open>
  The scroll and resize handlers of the viewer, and the end of \<open>load\<close>: the visible
  pages are computed anew and handed to the queue.
\<close>

definition onScroll :: "visiblePages \<Rightarrow> system \<Rightarrow> system" where
  "onScroll vp s =
     renderHighestPriority_call (Some vp)
       (s\<lparr>queue := (queue s)\<lparr>pdfViewer := map_option (\<lambda>v. v\<lparr>visible := vp\<rparr>) (pdfViewer (queue s))\<rparr>\<rparr>)"



definition loadedSystem :: "int \<Rightarrow> real \<Rightarrow> visiblePages \<Rightarrow> system" where
  "loadedSystem n scale vp = \<lparr>queue = loadedQueue n scale vp, awaiting = []\<rparr>"


definition isRunning :: "system \<Rightarrow> int \<Rightarrow> bool" where
  "isRunning s pageNumber =
     (case pdfViewer (queue s) of
        None \<Rightarrow> False
      | Some v \<Rightarrow>
          (case pages v pageNumber of
             None \<Rightarrow> False
           | Some pd \<Rightarrow> renderingState pd = RUNNING))"


section \<open>The find controller\<close>

text \<open>
  \<^verbatim>\<open>src/lib/find_controller.js\<close>. A match is a JavaScript object; \<open>this.matches\<close> is an
  array of references to such objects, and \<open>indexOf\<close> compares references. The model keeps
  the objects in a store (\<open>objects\<close>, from references to their fields) and the array as a
  list of references; \<open>nextRef\<close> is the next unused reference.
\<close>

datatype FindState = FOUND | NOT_FOUND | WRAPPED | PENDING

record match =
  pageNumber :: int
  startOffset :: int
  endOffset :: int
  matchText :: string

type_synonym ref = nat

record findController =
  pdfDocument :: "int option"
  pageContents :: "(int \<times> string) list"
  query :: string
  caseSensitive :: bool
  entireWord :: bool
  highlightAll :: bool
  objects :: "ref \<Rightarrow> match"
  nextRef :: ref
  matches :: "ref list"
  currentMatchIndex :: int
  state :: FindState
  extracting :: bool
  extractionComplete :: bool

text \<open>
  \<open>pdfDocument\<close> is the number of pages of the document (\<open>None\<close> for \<open>null\<close>);
  \<open>pageContents\<close> is the \<open>Map\<close> from page numbers to the extracted page text, in insertion
  order.
\<close>

definition mapSet :: "'k \<Rightarrow> 'v \<Rightarrow> ('k \<times> 'v) list \<Rightarrow> ('k \<times> 'v) list" where
  "mapSet k v m = (if k \<in> fst ` set m then map (\<lambda>e. if fst e = k then (k, v) else e) m else m @ [(k, v)])"

text \<open>The comparison function handed to \<open>Array.prototype.sort\<close>.\<close>

definition compareMatches :: "match \<Rightarrow> match \<Rightarrow> int" where
  "compareMatches a b =
     (if pageNumber a \<noteq> pageNumber b then pageNumber a - pageNumber b
      else startOffset a - startOffset b)"

text \<open>
  \<open>Array.prototype.sort\<close> is stable (ECMAScript 2019): elements that compare equal keep
  their order. With a consistent comparison function that fixes the result, whatever
  algorithm the engine uses; here it is insertion sort, each element going in behind the
  elements it does not precede.
\<close>

fun insertBy :: "('a \<Rightarrow> 'a \<Rightarrow> int) \<Rightarrow> 'a \<Rightarrow> 'a list \<Rightarrow> 'a list" where
  "insertBy cmp a [] = [a]"
| "insertBy cmp a (b # bs) = (if cmp a b < 0 then a # b # bs else b # insertBy cmp a bs)"

definition arraySort :: "('a \<Rightarrow> 'a \<Rightarrow> int) \<Rightarrow> 'a list \<Rightarrow> 'a list" where
  "arraySort cmp as = foldl (\<lambda>sorted a. insertBy cmp a sorted) [] as"

text \<open>\<open>array[i]\<close> is \<open>undefined\<close> outside the array; \<open>indexOf\<close> answers \<open>-1\<close> when nothing is found.\<close>

definition arrayGet :: "'a list \<Rightarrow> int \<Rightarrow> 'a option" where
  "arrayGet as i = (if 0 \<le> i \<and> i < int (length as) then Some (as ! nat i) else None)"

fun indexFrom :: "int \<Rightarrow> 'a list \<Rightarrow> 'a \<Rightarrow> int" where
  "indexFrom i [] a = - 1"
| "indexFrom i (b # bs) a = (if b = a then i else indexFrom (i + 1) bs a)"

definition indexOf :: "'a list \<Rightarrow> 'a \<Rightarrow> int" where
  "indexOf as a = indexFrom 0 as a"

definition sortMatchesAndFixIndex :: "findController \<Rightarrow> findController" where
  "sortMatchesAndFixIndex fc =
     (let currentMatch =
            (if currentMatchIndex fc \<ge> 0 then arrayGet (matches fc) (currentMatchIndex fc) else None);
          sorted = arraySort (\<lambda>a b. compareMatches (objects fc a) (objects fc b)) (matches fc)
      in case currentMatch of
           Some m \<Rightarrow> fc\<lparr>matches := sorted, currentMatchIndex := indexOf sorted m\<rparr>
         | None \<Rightarrow> fc\<lparr>matches := sorted\<rparr>)"

definition clearMatches :: "findController \<Rightarrow> findController" where
  "clearMatches fc = fc\<lparr>matches := [], currentMatchIndex := - 1\<rparr>"

text \<open>
  The regular-expression scan of \<open>_searchPage\<close> belongs to the JavaScript engine. It is a
  parameter here: from the query, the two flags and the page text to the offsets
  \<open>(startOffset, endOffset)\<close> of the successive matches (none when the pattern is
  rejected). Each match found is a new object pushed to \<open>this.matches\<close>.
\<close>

type_synonym scanner = "string \<Rightarrow> bool \<Rightarrow> bool \<Rightarrow> string \<Rightarrow> (int \<times> int) list"

definition pushMatch :: "match \<Rightarrow> findController \<Rightarrow> findController" where
  "pushMatch m fc =
     fc\<lparr>objects := (objects fc)(nextRef fc := m),
        matches := matches fc @ [nextRef fc],
        nextRef := Suc (nextRef fc)\<rparr>"

definition searchPage :: "scanner \<Rightarrow> int \<Rightarrow> findController \<Rightarrow> findController" where
  "searchPage scan pageNum fc =
     (case map_of (pageContents fc) pageNum of
        None \<Rightarrow> fc
      | Some pageText \<Rightarrow>
          foldl (\<lambda>fc' (s, e).
                   pushMatch \<lparr>pageNumber = pageNum, startOffset = s, endOffset = e,
                              matchText = take (nat (e - s)) (drop (nat s) pageText)\<rparr> fc')
            fc (scan (query fc) (caseSensitive fc) (entireWord fc) pageText))"

definition searchExtractedPages :: "scanner \<Rightarrow> findController \<Rightarrow> findController" where
  "searchExtractedPages scan fc =
     foldl (\<lambda>fc' pageNum. searchPage scan pageNum fc') (fc\<lparr>matches := []\<rparr>)
       (sort (map fst (pageContents fc)))"

text \<open>
  \<open>_ensureTextExtraction\<close> starts the asynchronous \<open>_extractTextLazily\<close>, which runs until
  its first \<open>await\<close>: pages already extracted are skipped; when every page of the
  extraction order is already extracted the function runs to its end at once.
\<close>

definition extractionOrder :: "visiblePages \<Rightarrow> int \<Rightarrow> int list" where
  "extractionOrder vp numPages =
     (case (first_page vp, last_page vp) of
        (Some f, Some l) \<Rightarrow> [f..l]
      | _ \<Rightarrow> [])
     @ [1..(case first_page vp of None \<Rightarrow> 1 | Some f \<Rightarrow> if f = 0 then 1 else f) - 1]
     @ [(case last_page vp of None \<Rightarrow> 0 | Some l \<Rightarrow> l) + 1..numPages]"

definition ensureTextExtraction :: "visiblePages \<Rightarrow> findController \<Rightarrow> findController" where
  "ensureTextExtraction vp fc =
     (if extracting fc \<or> extractionComplete fc then fc
      else case pdfDocument fc of
             None \<Rightarrow> fc
           | Some numPages \<Rightarrow>
               if list_all (\<lambda>pageNum. map_of (pageContents fc) pageNum \<noteq> None)
                    (extractionOrder vp numPages)
               then fc\<lparr>extracting := False, extractionComplete := True\<rparr>
               else fc\<lparr>extracting := True\<rparr>)"

text \<open>The \<open>options\<close> argument of \<open>find\<close>; a property may be missing (\<open>None\<close>).\<close>

record findOptions =
  opt_caseSensitive :: "bool option"
  opt_entireWord :: "bool option"
  opt_highlightAll :: "bool option"
  opt_findPrevious :: "bool option"

text \<open>
  \<open>find(query, options)\<close>. The highlighting of the text layer, the scrolling to the
  current match and the call of \<open>onUpdateState\<close> leave the fields modelled here as they
  are. \<open>vp\<close> is what the viewer's \<open>getVisiblePages()\<close> answers.
\<close>

definition find' :: "scanner \<Rightarrow> visiblePages \<Rightarrow> string \<Rightarrow> findOptions \<Rightarrow> findController \<Rightarrow> findController" where
  "find' scan vp q options fc =
     (let queryChanged = (q \<noteq> query fc);
          optionsChanged = (opt_caseSensitive options \<noteq> Some (caseSensitive fc)
                            \<or> opt_entireWord options \<noteq> Some (entireWord fc));
          fc1 = fc\<lparr>query := q,
                   caseSensitive := (opt_caseSensitive options = Some True),
                   entireWord := (opt_entireWord options = Some True),
                   highlightAll := (opt_highlightAll options \<noteq> Some False)\<rparr>
      in if q = [] then (clearMatches fc1)\<lparr>state := PENDING\<rparr>
         else
           (let fc2 = ensureTextExtraction vp fc1 in
            if queryChanged \<or> optionsChanged then
              (let fc3 = searchExtractedPages scan (clearMatches fc2) in
               if length (matches fc3) > 0
               then fc3\<lparr>currentMatchIndex := 0, state := FOUND\<rparr>
               else fc3\<lparr>currentMatchIndex := - 1,
                        state := (if extractionComplete fc3 then NOT_FOUND else PENDING)\<rparr>)
            else if length (matches fc2) > 0 then
              (if opt_findPrevious options = Some True then
                 (let i = currentMatchIndex fc2 - 1 in
                  if i < 0
                  then fc2\<lparr>currentMatchIndex := int (length (matches fc2)) - 1, state := WRAPPED\<rparr>
                  else fc2\<lparr>currentMatchIndex := i, state := FOUND\<rparr>)
               else
                 (let i = currentMatchIndex fc2 + 1 in
                  if i \<ge> int (length (matches fc2))
                  then fc2\<lparr>currentMatchIndex := 0, state := WRAPPED\<rparr>
                  else fc2\<lparr>currentMatchIndex := i, state := FOUND\<rparr>))
            else fc2))"

definition findNext :: "scanner \<Rightarrow> visiblePages \<Rightarrow> findController \<Rightarrow> findController" where
  "findNext scan vp fc =
     find' scan vp (query fc)
       \<lparr>opt_caseSensitive = Some (caseSensitive fc), opt_entireWord = Some (entireWord fc),
        opt_highlightAll = Some (highlightAll fc), opt_findPrevious = Some False\<rparr> fc"

definition findPrevious :: "scanner \<Rightarrow> visiblePages \<Rightarrow> findController \<Rightarrow> findController" where
  "findPrevious scan vp fc =
     find' scan vp (query fc)
       \<lparr>opt_caseSensitive = Some (caseSensitive fc), opt_entireWord = Some (entireWord fc),
        opt_highlightAll = Some (highlightAll fc), opt_findPrevious = Some True\<rparr> fc"

definition setDocument :: "int \<Rightarrow> findController \<Rightarrow> findController" where
  "setDocument numPages fc =
     fc\<lparr>pdfDocument := Some numPages, pageContents := [], matches := [],
        currentMatchIndex := - 1, extractionComplete := False\<rparr>"

text \<open>
  The body of the extraction loop for one page, from the moment \<open>_extractPage\<close> has
  delivered the page text: the text is stored, and with an active query the page is
  searched and the matches are sorted again when some were added.
\<close>

definition pageExtracted :: "scanner \<Rightarrow> int \<Rightarrow> string \<Rightarrow> findController \<Rightarrow> findController" where
  "pageExtracted scan pageNum pageText fc =
     (let fc1 = fc\<lparr>pageContents := mapSet pageNum pageText (pageContents fc)\<rparr> in
      if query fc1 \<noteq> [] then
        (let matchCountBefore = length (matches fc1);
             fc2 = searchPage scan pageNum fc1
         in if length (matches fc2) > matchCountBefore then sortMatchesAndFixIndex fc2 else fc2)
      else fc1)"


text \<open>
  The constructor, the end of \<open>_extractTextLazily\<close> once every page of the extraction
  order has been handled, and \<open>destroy\<close>. The store of a new controller holds no match;
  every reference reads as an empty match until \<open>pushMatch\<close> writes to it.
\<close>

definition newFindController :: findController where
  "newFindController =
     \<lparr>pdfDocument = None, pageContents = [], query = [], caseSensitive = False,
      entireWord = False, highlightAll = True,
      objects = (\<lambda>r. \<lparr>pageNumber = 0, startOffset = 0, endOffset = 0, matchText = []\<rparr>),
      nextRef = 0, matches = [], currentMatchIndex = - 1, state = PENDING,
      extracting = False, extractionComplete = False\<rparr>"

definition extractionFinished :: "findController \<Rightarrow> findController" where
  "extractionFinished fc = fc\<lparr>extracting := False, extractionComplete := True\<rparr>"

definition destroy :: "findController \<Rightarrow> findController" where
  "destroy fc = fc\<lparr>pageContents := [], matches := [], pdfDocument := None\<rparr>"

text \<open>
  The states of a controller: it is constructed, and then documents are set, searches are
  made (\<open>findNext\<close> and \<open>findPrevious\<close> are calls of \<open>find\<close>), the extraction delivers
  pages and the controller is cleaned up, in any order.
\<close>

inductive controllerStates :: "scanner \<Rightarrow> findController \<Rightarrow> bool" for scan :: scanner where
  created: "controllerStates scan newFindController"
| document: "controllerStates scan fc \<Longrightarrow> controllerStates scan (setDocument numPages fc)"
| found: "controllerStates scan fc \<Longrightarrow> controllerStates scan (find' scan vp q options fc)"
| extracted: "controllerStates scan fc
     \<Longrightarrow> controllerStates scan (pageExtracted scan pageNum pageText fc)"
| finished: "controllerStates scan fc \<Longrightarrow> controllerStates scan (extractionFinished fc)"
| destroyed: "controllerStates scan fc \<Longrightarrow> controllerStates scan (destroy fc)"

text \<open>
  The total order on matches of the specification: by page number, then by start offset.
\<close>

definition matchLeq :: "match \<Rightarrow> match \<Rightarrow> bool" where
  "matchLeq a b =
     (pageNumber a < pageNumber b
      \<or> (pageNumber a = pageNumber b \<and> startOffset a \<le> startOffset b))"

section \<open>The coordinate transformer\<close>

text \<open>
  The class \<open>CoordinateTransformer\<close>. JavaScript numbers are modelled as real numbers, so
  the arithmetic is exact. What the transformer needs of its viewer is the bounding
  client rectangle of each page container (\<open>None\<close> when \<open>getPageContainer\<close> answers
  \<open>null\<close>) and the display scale.
\<close>

record rect =
  left :: real
  right :: real
  top' :: real
  bottom :: real

record point =
  xc :: real
  yc :: real

record quad =
  p1 :: point
  p2 :: point
  p3 :: point
  p4 :: point

record pointerEvent =
  clientX :: real
  clientY :: real

record pageGeometry =
  getPageContainer :: "int \<rightharpoonup> rect"
  getScale :: real

definition screenToPdf :: "pageGeometry \<Rightarrow> pointerEvent \<Rightarrow> int \<Rightarrow> (point \<times> int) option" where
  "screenToPdf g event pageNum =
     (case getPageContainer g pageNum of
        None \<Rightarrow> None
      | Some r \<Rightarrow>
          (let scale = getScale g;
               screenX = clientX event - left r;
               screenY = clientY event - top' r;
               pdfX = screenX / scale;
               pdfY = screenY / scale
           in Some (\<lparr>xc = pdfX, yc = pdfY\<rparr>, pageNum)))"

definition pdfToScreen :: "pageGeometry \<Rightarrow> real \<Rightarrow> real \<Rightarrow> int \<Rightarrow> point option" where
  "pdfToScreen g x y pageNum =
     (case getPageContainer g pageNum of
        None \<Rightarrow> None
      | Some r \<Rightarrow>
          (let scale = getScale g;
               screenX = x * scale + left r;
               screenY = y * scale + top' r
           in Some \<lparr>xc = screenX, yc = screenY\<rparr>))"

text \<open>The test of the inner loop of \<open>_mergeOverlappingRects\<close> and the rectangle it builds.\<close>

definition shouldMerge :: "rect \<Rightarrow> rect \<Rightarrow> bool" where
  "shouldMerge r existing =
     (let verticalOverlap = (top' r < bottom existing \<and> bottom r > top' existing);
          horizontalOverlap = (left r < right existing \<and> right r > left existing);
          sameLine = (\<bar>top' r - top' existing\<bar> < 3 \<and> \<bar>bottom r - bottom existing\<bar> < 3);
          horizontallyAdjacent = (\<bar>left r - right existing\<bar> < 2 \<or> \<bar>left existing - right r\<bar> < 2)
      in (verticalOverlap \<and> horizontalOverlap) \<or> (sameLine \<and> horizontallyAdjacent))"

definition mergeRects :: "rect \<Rightarrow> rect \<Rightarrow> rect" where
  "mergeRects r existing =
     \<lparr>left = min (left existing) (left r),
      right = max (right existing) (right r),
      top' = min (top' existing) (top' r),
      bottom = max (bottom existing) (bottom r)\<rparr>"

text \<open>
  The loop over \<open>result\<close> for one rectangle: the first entry that the rectangle merges with
  is replaced (\<open>Some\<close> of the new \<open>result\<close>), or nothing merges (\<open>None\<close>, \<open>didMerge\<close> stays
  false).
\<close>

fun mergeIntoResult :: "rect \<Rightarrow> rect list \<Rightarrow> rect list option" where
  "mergeIntoResult r [] = None"
| "mergeIntoResult r (existing # rest) =
     (if shouldMerge r existing then Some (mergeRects r existing # rest)
      else map_option (\<lambda>rest'. existing # rest') (mergeIntoResult r rest))"

text \<open>The loop over \<open>working\<close>: one pass, with \<open>result\<close> and the flag \<open>merged\<close>.\<close>

fun mergePass :: "rect list \<Rightarrow> rect list \<Rightarrow> bool \<Rightarrow> rect list \<times> bool" where
  "mergePass [] result merged = (result, merged)"
| "mergePass (r # working) result merged =
     (case mergeIntoResult r result of
        Some result' \<Rightarrow> mergePass working result' True
      | None \<Rightarrow> mergePass working (result @ [r]) merged)"

lemma mergeIntoResult_length:
  "mergeIntoResult r result = Some result' \<Longrightarrow> length result' = length result"
  by (induction result arbitrary: result') (auto split: if_splits)

lemma mergePass_length:
  "length (fst (mergePass working result merged)) \<le> length result + length working"
proof (induction working arbitrary: result merged)
  case Nil
  show ?case by simp
next
  case (Cons r working)
  show ?case
  proof (cases "mergeIntoResult r result")
    case None
    with Cons [of "result @ [r]" merged] show ?thesis by simp
  next
    case (Some result')
    with Cons [of result' True] mergeIntoResult_length [OF Some] show ?thesis by simp
  qed
qed

lemma mergePass_shorter:
  "snd (mergePass working result merged) \<Longrightarrow> \<not> merged
     \<Longrightarrow> length (fst (mergePass working result merged)) < length result + length working"
proof (induction working arbitrary: result)
  case Nil
  then show ?case by simp
next
  case (Cons r working)
  show ?case
  proof (cases "mergeIntoResult r result")
    case None
    with Cons.prems Cons.IH [of "result @ [r]"] show ?thesis by simp
  next
    case (Some result')
    with mergePass_length [of working result' True] mergeIntoResult_length [OF Some]
    show ?thesis by simp
  qed
qed

text \<open>
  \<open>while (merged)\<close>: passes are repeated until one merges nothing. Every pass that merges
  makes the list shorter, so the loop ends.
\<close>

function mergeLoop :: "rect list \<Rightarrow> rect list" where
  "mergeLoop working =
     (case mergePass working [] False of
        (result, merged) \<Rightarrow> if merged then mergeLoop result else result)"
  by pat_completeness auto
termination
  apply (relation "measure length")
   apply simp
  using mergePass_shorter [of _ "[]" False] apply (auto simp: prod_eq_iff)
  done

declare mergeLoop.simps [simp del]

definition mergeOverlappingRects :: "rect list \<Rightarrow> rect list" where
  "mergeOverlappingRects rects = (if length rects = 0 then [] else mergeLoop rects)"

text \<open>
  \<open>selectionRectsToQuads\<close>: the filter on the client rectangles, the conversion to PDF
  coordinates, the filter on the converted rectangles, the merge, and one quad for each
  merged rectangle.
\<close>

definition onScreenFilter :: "rect \<Rightarrow> rect \<Rightarrow> bool" where
  "onScreenFilter pageRect r =
     (let width = right r - left r;
          height = bottom r - top' r
      in if width < 1 \<or> height < 1 then False
         else if right r < left pageRect \<or> left r > right pageRect then False
         else if bottom r < top' pageRect \<or> top' r > bottom pageRect then False
         else True)"

definition toPdfRect :: "rect \<Rightarrow> real \<Rightarrow> rect \<Rightarrow> rect" where
  "toPdfRect pageRect scale r =
     \<lparr>left = (left r - left pageRect) / scale,
      right = (right r - left pageRect) / scale,
      top' = (top' r - top' pageRect) / scale,
      bottom = (bottom r - top' pageRect) / scale\<rparr>"

definition minSize :: real where
  "minSize = 1"

definition pdfFilter :: "rect \<Rightarrow> bool" where
  "pdfFilter r =
     (let width = right r - left r;
          height = bottom r - top' r
      in if width < minSize \<or> height < minSize then False
         else if left r < minSize \<and> top' r < minSize then False
         else True)"

definition rectToQuad :: "rect \<Rightarrow> quad" where
  "rectToQuad r =
     \<lparr>p1 = \<lparr>xc = left r, yc = top' r\<rparr>,
      p2 = \<lparr>xc = right r, yc = top' r\<rparr>,
      p3 = \<lparr>xc = left r, yc = bottom r\<rparr>,
      p4 = \<lparr>xc = right r, yc = bottom r\<rparr>\<rparr>"

definition selectionRectsToQuads :: "pageGeometry \<Rightarrow> rect list \<Rightarrow> int \<Rightarrow> quad list" where
  "selectionRectsToQuads g rects pageNum =
     (case getPageContainer g pageNum of
        None \<Rightarrow> []
      | Some pageRect \<Rightarrow>
          (let scale = getScale g;
               rectArray = filter pdfFilter
                             (map (toPdfRect pageRect scale) (filter (onScreenFilter pageRect) rects));
               mergedRects = mergeOverlappingRects rectArray
           in map rectToQuad mergedRects))"





text \<open>
  Two notions of the specification. The rectangle that a quad of \<open>selectionRectsToQuads\<close>
  stands for (the rectangle "derived from the output"), and a client rectangle scaled by a
  factor about the origin of the screen, as it is when the page is shown at another
  scale.
\<close>

definition quadBounds :: "quad \<Rightarrow> rect" where
  "quadBounds q = \<lparr>left = xc (p1 q), right = xc (p4 q), top' = yc (p1 q), bottom = yc (p4 q)\<rparr>"



definition scaleRect :: "real \<Rightarrow> rect \<Rightarrow> rect" where
  "scaleRect k r =
     \<lparr>left = k * left r, right = k * right r, top' = k * top' r, bottom = k * bottom r\<rparr>"

text \<open>
  A client rectangle that the first filter of \<open>selectionRectsToQuads\<close> does not drop for
  its size: at least one pixel wide and one pixel high on the screen.
\<close>

definition atLeastOnePixel :: "rect \<Rightarrow> bool" where
  "atLeastOnePixel r = (1 \<le> right r - left r \<and> 1 \<le> bottom r - top' r)"


section \<open>Properties of the rendering queue\<close>

subsection \<open>The loops as searches in a list of candidates\<close>

lemma find_append_case:
  "find P (xs @ ys) = (case find P xs of Some x \<Rightarrow> Some x | None \<Rightarrow> find P ys)"
  by (induction xs) auto

lemma scanDown_find: "scanDown v page l = find (\<lambda>p. \<not> isPageRendered v p) [page..l]"
proof (induction v page l rule: scanDown.induct)
  case (1 v page l)
  show ?case
  proof (cases "page \<le> l")
    case True
    then have "[page..l] = page # [page + 1..l]" by (simp add: upto_rec1)
    with True 1 show ?thesis by (simp add: scanDown.simps [of v page l])
  next
    case False
    then show ?thesis by (simp add: scanDown.simps [of v page l])
  qed
qed

lemma scanUp_find: "scanUp v page f = find (\<lambda>p. \<not> isPageRendered v p) (rev [f..page])"
proof (induction v page f rule: scanUp.induct)
  case (1 v page f)
  show ?case
  proof (cases "f \<le> page")
    case True
    then have "[f..page] = [f..page - 1] @ [page]" by (simp add: upto_rec2)
    with True 1 show ?thesis by (simp add: scanUp.simps [of v page f])
  next
    case False
    then show ?thesis by (simp add: scanUp.simps [of v page f])
  qed
qed

lemma preRenderAfter_find:
  "preRenderAfter v l 1 =
     find (\<lambda>p. \<not> isPageRendered v p) (filter (\<lambda>p. p \<le> pageCount v) [l + 1, l + 2])"
  by (simp add: preRenderAfter.simps [of v l 1] preRenderAfter.simps [of v l 2]
      preRenderAfter.simps [of v l 3] preRenderCount_def Let_def)

lemma preRenderBefore_find:
  "preRenderBefore v f 1 =
     find (\<lambda>p. \<not> isPageRendered v p) (filter (\<lambda>p. 1 \<le> p) [f - 1, f - 2])"
  by (simp add: preRenderBefore.simps [of v f 1] preRenderBefore.simps [of v f 2]
      preRenderBefore.simps [of v f 3] preRenderCount_def Let_def)

lemma getHighestPriorityPage_find:
  "getHighestPriorityPage q (Some \<lparr>first_page = Some f, last_page = Some l, scrollDirection = d\<rparr>) =
     (case pdfViewer q of
        None \<Rightarrow> None
      | Some v \<Rightarrow> find (\<lambda>p. \<not> isPageRendered v p) (candidateOrder f l d (pageCount v)))"
  by (simp add: getHighestPriorityPage_def candidateOrder_def find_append_case scanDown_find
      scanUp_find preRenderAfter_find preRenderBefore_find split: option.splits)

lemma candidateOrder_clipped:
  "1 \<le> f \<Longrightarrow> f \<le> l \<Longrightarrow> l \<le> n \<Longrightarrow> set (candidateOrder f l d n) \<subseteq> {1..n}"
  by (auto simp: candidateOrder_def)

lemma getHighestPriorityPage_unrendered:
  assumes "getHighestPriorityPage q vp = Some p" and "pdfViewer q = Some v"
  shows "\<not> isPageRendered v p"
  using assms
  by (auto simp: getHighestPriorityPage_def Let_def scanDown_find scanUp_find preRenderAfter_find
      preRenderBefore_find find_Some_iff split: option.splits if_splits)

lemma getHighestPriorityPage_cong:
  assumes "pdfViewer q = Some v" and "pdfViewer q' = Some v'"
    and "isPageRendered v' = isPageRendered v" and "pageCount v' = pageCount v"
    and "visible v' = visible v"
  shows "getHighestPriorityPage q' vp = getHighestPriorityPage q vp"
proof -
  have e: "scanDown v' = scanDown v" "scanUp v' = scanUp v"
    "preRenderAfter v' l 1 = preRenderAfter v l 1" "preRenderBefore v' f 1 = preRenderBefore v f 1"
    for l f
    using assms(3,4)
    by (simp_all add: fun_eq_iff scanDown_find scanUp_find preRenderAfter_find preRenderBefore_find)
  show ?thesis
    using assms(1,2,5)
    by (simp add: getHighestPriorityPage_def e cong: option.case_cong if_cong)
qed

lemmas scheduler_defs =
  loadedSystem_def loadedQueue_def loadedViewer_def createPagePlaceholders_def
  getHighestPriorityPage_def scanDown.simps scanUp.simps preRenderAfter.simps
  preRenderBefore.simps preRenderCount_def isPageRendered_def renderPage_def
  renderPage_start_def renderPage_finish_def renderPage_fail_def Let_def onScroll_def
  renderHighestPriority_call_def isRunning_def

subsection \<open>A render that fails\<close>

lemma isPageRendered_after_failure:
  assumes "pages v p = Some pd" and "\<not> isPageRendered v p"
  shows "isPageRendered (v\<lparr>pages := (pages v)(p \<mapsto> pd\<lparr>renderingState := INITIAL\<rparr>)\<rparr>)
           = isPageRendered v"
  using assms by (auto simp: isPageRendered_def fun_eq_iff split: option.splits if_splits)

lemma renderPage_threw:
  assumes "pages v p = Some pd" and "\<not> isPageRendered v p" and "\<not> renders p"
  shows "renderPage renders p v
           = (Threw, v\<lparr>pages := (pages v)(p \<mapsto> pd\<lparr>renderingState := INITIAL\<rparr>)\<rparr>)"
  using assms
  by (auto simp: renderPage_def renderPage_start_def renderPage_fail_def isPageRendered_def
      split: if_splits)

text \<open>
  Claim C1, as the code has it. When the render of the selected page fails, the page is
  back in state \<open>INITIAL\<close>, \<open>_highestPriorityPage\<close> is cleared and the error is logged,
  and that is the end of the pass: \<open>renderHighestPriority\<close> returns without selecting
  another page and without arming the idle timer, whatever other pages are waiting. The
  failed page is the one the next call selects again.
\<close>

theorem render_failure_ends_pass:
  assumes "pdfViewer q = Some v"
    and "getHighestPriorityPage q visiblePages = Some p"
    and "pages v p = Some pd"
    and "\<not> renders p"
    and "q' = q\<lparr>idleTimeout := False,
                pdfViewer := Some (v\<lparr>pages := (pages v)(p \<mapsto> pd\<lparr>renderingState := INITIAL\<rparr>)\<rparr>),
                highestPriorityPage := None\<rparr>"
  shows "renderHighestPriority (Suc n) renders visiblePages q = Some ([RenderError p], q')
       \<and> getHighestPriorityPage q' visiblePages = Some p"
proof -
  let ?v' = "v\<lparr>pages := (pages v)(p \<mapsto> pd\<lparr>renderingState := INITIAL\<rparr>)\<rparr>"
  have u: "\<not> isPageRendered v p"
    using assms(1,2) by (rule getHighestPriorityPage_unrendered [rotated])
  have sel: "getHighestPriorityPage (q\<lparr>idleTimeout := False\<rparr>) visiblePages = Some p"
    using assms(2) by (simp add: getHighestPriorityPage_def)
  have run: "renderHighestPriority (Suc n) renders visiblePages q = Some ([RenderError p], q')"
    using assms(1,5) sel assms(3) u assms(4) by (simp add: renderPage_threw [of v p pd renders])
  have "getHighestPriorityPage q' visiblePages = getHighestPriorityPage q visiblePages"
  proof (rule getHighestPriorityPage_cong [OF assms(1)])
    show "pdfViewer q' = Some ?v'" using assms(5) by simp
    show "isPageRendered ?v' = isPageRendered v"
      by (rule isPageRendered_after_failure [OF assms(3) u])
  qed simp_all
  with run assms(2) show ?thesis by simp
qed

theorem render_failure_ends_pass_witness:
  "getHighestPriorityPage
      (loadedQueue 3 1 \<lparr>first_page = Some 1, last_page = Some 3, scrollDirection = ''down''\<rparr>)
      None = Some 1
   \<and> renderHighestPriority (Suc 0) (\<lambda>p. p \<noteq> 1) None
      (loadedQueue 3 1 \<lparr>first_page = Some 1, last_page = Some 3, scrollDirection = ''down''\<rparr>)
     = Some ([RenderError 1],
         \<lparr>pdfViewer = Some
            ((loadedViewer 3 1 \<lparr>first_page = Some 1, last_page = Some 3, scrollDirection = ''down''\<rparr>)
               \<lparr>pages := (createPagePlaceholders 3)
                   (1 \<mapsto> \<lparr>renderingState = INITIAL, renderedScale = None\<rparr>)\<rparr>),
          highestPriorityPage = None, idleTimeout = False\<rparr>)
   \<and> getHighestPriorityPage
       \<lparr>pdfViewer = Some
            ((loadedViewer 3 1 \<lparr>first_page = Some 1, last_page = Some 3, scrollDirection = ''down''\<rparr>)
               \<lparr>pages := (createPagePlaceholders 3)
                   (1 \<mapsto> \<lparr>renderingState = INITIAL, renderedScale = None\<rparr>)\<rparr>),
          highestPriorityPage = None, idleTimeout = False\<rparr>
       None = Some 1"
proof -
  let ?vp = "\<lparr>first_page = Some 1, last_page = Some 3, scrollDirection = ''down''\<rparr>"
  have sel: "getHighestPriorityPage (loadedQueue 3 1 ?vp) None = Some 1"
    by (simp add: scheduler_defs)
  have v: "pdfViewer (loadedQueue 3 1 ?vp) = Some (loadedViewer 3 1 ?vp)"
    by (simp add: loadedQueue_def)
  have pd: "pages (loadedViewer 3 1 ?vp) 1 = Some \<lparr>renderingState = INITIAL, renderedScale = None\<rparr>"
    by (simp add: loadedViewer_def createPagePlaceholders_def)
  have f: "\<not> (\<lambda>p::int. p \<noteq> 1) 1" by simp
  show ?thesis
    using sel render_failure_ends_pass [where renders = "\<lambda>p. p \<noteq> 1" and n = 0, OF v sel pd f refl]
    by (simp add: loadedQueue_def loadedViewer_def)
qed

text \<open>
  Claim C1 as it is worded fails: in a document of three pages, all visible and none
  rendered, the render of page 1 fails. The pass ends with that error; pages 2 and 3 are
  not rendered, and page 1 is what the queue would select next.
\<close>

theorem render_failure_counterexample:
  "map_option fst (renderHighestPriority 8 (\<lambda>p. p \<noteq> 1)
      (Some \<lparr>first_page = Some 1, last_page = Some 3, scrollDirection = ''down''\<rparr>)
      (loadedQueue 3 1 \<lparr>first_page = Some 1, last_page = Some 3, scrollDirection = ''down''\<rparr>))
     = Some [RenderError 1]
   \<and> map_option (\<lambda>r. map_option (\<lambda>v. (isPageRendered v 2, isPageRendered v 3)) (pdfViewer (snd r)))
       (renderHighestPriority 8 (\<lambda>p. p \<noteq> 1)
         (Some \<lparr>first_page = Some 1, last_page = Some 3, scrollDirection = ''down''\<rparr>)
         (loadedQueue 3 1 \<lparr>first_page = Some 1, last_page = Some 3, scrollDirection = ''down''\<rparr>))
     = Some (Some (False, False))"
  by (simp add: scheduler_defs numeral_eq_Suc)


subsection \<open>The order of rendering\<close>

text \<open>
  Claim C3. In a document of ten pages with pages 4 to 6 visible while scrolling down and
  nothing rendered yet, a call of \<open>renderHighestPriority\<close> whose renders all succeed
  renders pages 4, 5, 6, 7, 8, 3, 2 in this order and then arms the idle timer (eight
  calls of the function, and any larger number allowed, give this result). In general
  the page selected is the first page not yet rendered in the order of
  \<open>candidateOrder\<close>: the visible range (ascending for \<open>''down''\<close>, descending otherwise),
  then the two pages after \<open>last\<close> up to the page count, then the two pages before
  \<open>first\<close> down to page 1; for a visible range inside the document all candidates are
  pages of the document.
\<close>

theorem scheduling_order:
  "map_option fst
     (renderHighestPriority (8 + k) (\<lambda>p. True)
        (Some \<lparr>first_page = Some 4, last_page = Some 6, scrollDirection = ''down''\<rparr>)
        (loadedQueue 10 scale \<lparr>first_page = Some 4, last_page = Some 6, scrollDirection = ''down''\<rparr>))
     = Some [PageRendered 4, PageRendered 5, PageRendered 6, PageRendered 7, PageRendered 8,
             PageRendered 3, PageRendered 2, IdleScheduled]
   \<and> getHighestPriorityPage q
        (Some \<lparr>first_page = Some f, last_page = Some l, scrollDirection = d\<rparr>)
     = (case pdfViewer q of
          None \<Rightarrow> None
        | Some v \<Rightarrow> find (\<lambda>p. \<not> isPageRendered v p) (candidateOrder f l d (pageCount v)))
   \<and> (1 \<le> f \<and> f \<le> l \<and> l \<le> n \<longrightarrow> set (candidateOrder f l d n) \<subseteq> {1..n})"
proof (intro conjI)
  have k: "8 + k = Suc (Suc (Suc (Suc (Suc (Suc (Suc (Suc k)))))))" by simp
  show "map_option fst
     (renderHighestPriority (8 + k) (\<lambda>p. True)
        (Some \<lparr>first_page = Some 4, last_page = Some 6, scrollDirection = ''down''\<rparr>)
        (loadedQueue 10 scale \<lparr>first_page = Some 4, last_page = Some 6, scrollDirection = ''down''\<rparr>))
     = Some [PageRendered 4, PageRendered 5, PageRendered 6, PageRendered 7, PageRendered 8,
             PageRendered 3, PageRendered 2, IdleScheduled]"
    unfolding k by (simp add: scheduler_defs)
  show "getHighestPriorityPage q
        (Some \<lparr>first_page = Some f, last_page = Some l, scrollDirection = d\<rparr>)
     = (case pdfViewer q of
          None \<Rightarrow> None
        | Some v \<Rightarrow> find (\<lambda>p. \<not> isPageRendered v p) (candidateOrder f l d (pageCount v)))"
    by (rule getHighestPriorityPage_find)
  show "1 \<le> f \<and> f \<le> l \<and> l \<le> n \<longrightarrow> set (candidateOrder f l d n) \<subseteq> {1..n}"
    by (simp add: candidateOrder_clipped)
qed

theorem scheduling_order_witness:
  "candidateOrder 4 6 ''down'' 10 = [4, 5, 6, 7, 8, 3, 2]
   \<and> set (candidateOrder 4 6 ''down'' 10) \<subseteq> {1..10}
   \<and> getHighestPriorityPage
        (loadedQueue 10 1 \<lparr>first_page = Some 4, last_page = Some 6, scrollDirection = ''up''\<rparr>)
        (Some \<lparr>first_page = Some 4, last_page = Some 6, scrollDirection = ''up''\<rparr>) = Some 6"
proof -
  have c: "candidateOrder 4 6 ''down'' 10 = [4, 5, 6, 7, 8, 3, 2]"
    by (simp add: candidateOrder_def upto_rec1)
  have u: "candidateOrder 4 6 ''up'' 10 = [6, 5, 4, 7, 8, 3, 2]"
    by (simp add: candidateOrder_def upto_rec1)
  note t = scheduling_order [of 0 1
      "loadedQueue 10 1 \<lparr>first_page = Some 4, last_page = Some 6, scrollDirection = ''up''\<rparr>"
      4 6 "''up''" 10]
  have "set (candidateOrder 4 6 ''down'' 10) \<subseteq> {1..10}"
    using scheduling_order [of 0 1
        "loadedQueue 10 1 \<lparr>first_page = Some 4, last_page = Some 6, scrollDirection = ''down''\<rparr>"
        4 6 "''down''" 10]
    by simp
  moreover have "getHighestPriorityPage
        (loadedQueue 10 1 \<lparr>first_page = Some 4, last_page = Some 6, scrollDirection = ''up''\<rparr>)
        (Some \<lparr>first_page = Some 4, last_page = Some 6, scrollDirection = ''up''\<rparr>) = Some 6"
    using t by (simp add: u loadedQueue_def loadedViewer_def createPagePlaceholders_def
        isPageRendered_def)
  ultimately show ?thesis using c by simp
qed

subsection \<open>Pages in state RUNNING\<close>














section \<open>Properties of the find controller\<close>

subsection \<open>Sorting the matches\<close>

lemma compareMatches_leq: "compareMatches a b \<le> 0 \<longleftrightarrow> matchLeq a b"
  by (auto simp: compareMatches_def matchLeq_def)

lemma compareMatches_less: "compareMatches a b < 0 \<Longrightarrow> matchLeq a b"
  by (auto simp: compareMatches_def matchLeq_def split: if_splits)

lemma compareMatches_not_less: "\<not> compareMatches a b < 0 \<Longrightarrow> matchLeq b a"
  by (auto simp: compareMatches_def matchLeq_def split: if_splits)

lemma matchLeq_trans: "matchLeq a b \<Longrightarrow> matchLeq b c \<Longrightarrow> matchLeq a c"
  by (auto simp: matchLeq_def)

lemma mset_insertBy: "mset (insertBy cmp a bs) = add_mset a (mset bs)"
  by (induction bs) auto

lemma set_insertBy: "set (insertBy cmp a bs) = insert a (set bs)"
  by (induction bs) auto

lemma sorted_insertBy:
  assumes "sorted_wrt (\<lambda>a b. matchLeq (h a) (h b)) bs"
  shows "sorted_wrt (\<lambda>a b. matchLeq (h a) (h b)) (insertBy (\<lambda>a b. compareMatches (h a) (h b)) x bs)"
  using assms
proof (induction bs)
  case Nil
  show ?case by simp
next
  case (Cons b bs)
  show ?case
  proof (cases "compareMatches (h x) (h b) < 0")
    case True
    then have "matchLeq (h x) (h b)" by (rule compareMatches_less)
    with Cons.prems True show ?thesis by (auto intro: matchLeq_trans)
  next
    case False
    then have "matchLeq (h b) (h x)" by (rule compareMatches_not_less)
    with Cons False show ?thesis by (auto simp: set_insertBy)
  qed
qed

lemma foldl_insertBy_mset:
  "mset (foldl (\<lambda>sorted a. insertBy cmp a sorted) acc as) = mset acc + mset as"
  by (induction as arbitrary: acc) (simp_all add: mset_insertBy)

lemma foldl_insertBy_sorted:
  "sorted_wrt (\<lambda>a b. matchLeq (h a) (h b)) acc \<Longrightarrow>
   sorted_wrt (\<lambda>a b. matchLeq (h a) (h b))
     (foldl (\<lambda>sorted a. insertBy (\<lambda>a b. compareMatches (h a) (h b)) a sorted) acc as)"
  by (induction as arbitrary: acc) (simp_all add: sorted_insertBy)

lemma mset_arraySort: "mset (arraySort cmp as) = mset as"
  by (simp add: arraySort_def foldl_insertBy_mset)

lemma sorted_arraySort:
  "sorted_wrt (\<lambda>a b. matchLeq (h a) (h b)) (arraySort (\<lambda>a b. compareMatches (h a) (h b)) as)"
  by (simp add: arraySort_def foldl_insertBy_sorted)

lemma indexFrom_found:
  "a \<in> set bs \<Longrightarrow> i \<le> indexFrom i bs a \<and> indexFrom i bs a < i + int (length bs)
     \<and> bs ! nat (indexFrom i bs a - i) = a"
proof (induction bs arbitrary: i)
  case Nil
  then show ?case by simp
next
  case (Cons b bs)
  show ?case
  proof (cases "b = a")
    case True
    then show ?thesis by simp
  next
    case False
    with Cons.prems have "a \<in> set bs" by simp
    from Cons.IH [OF this, of "i + 1"]
    have b: "i + 1 \<le> indexFrom (i + 1) bs a" "indexFrom (i + 1) bs a < i + 1 + int (length bs)"
      and v: "bs ! nat (indexFrom (i + 1) bs a - (i + 1)) = a" by simp_all
    from b have "nat (indexFrom (i + 1) bs a - i) = Suc (nat (indexFrom (i + 1) bs a - (i + 1)))"
      by linarith
    with b v False show ?thesis by simp
  qed
qed

lemma indexOf_found:
  "a \<in> set bs \<Longrightarrow> 0 \<le> indexOf bs a \<and> indexOf bs a < int (length bs) \<and> bs ! nat (indexOf bs a) = a"
  using indexFrom_found [of a bs 0] by (simp add: indexOf_def)

text \<open>
  Claim C4. The matches found on a newly extracted page are pushed behind the matches
  already in the list (\<open>old @ new\<close>). When a match of the old list is the current one,
  \<open>_sortMatchesAndFixIndex\<close> leaves the current index pointing at the same object (the
  same reference) in the sorted list. The sorted list holds the same references, in the
  order of page number and start offset, and no object is changed.
\<close>

theorem current_match_kept:
  assumes "matches fc = old @ new"
    and "0 \<le> currentMatchIndex fc" and "currentMatchIndex fc < int (length old)"
  shows "0 \<le> currentMatchIndex (sortMatchesAndFixIndex fc)
    \<and> currentMatchIndex (sortMatchesAndFixIndex fc) < int (length (matches (sortMatchesAndFixIndex fc)))
    \<and> matches (sortMatchesAndFixIndex fc) ! nat (currentMatchIndex (sortMatchesAndFixIndex fc))
        = old ! nat (currentMatchIndex fc)
    \<and> mset (matches (sortMatchesAndFixIndex fc)) = mset old + mset new
    \<and> sorted_wrt (\<lambda>a b. matchLeq (objects fc a) (objects fc b)) (matches (sortMatchesAndFixIndex fc))
    \<and> objects (sortMatchesAndFixIndex fc) = objects fc"
proof -
  let ?cmp = "\<lambda>a b. compareMatches (objects fc a) (objects fc b)"
  let ?m = "old ! nat (currentMatchIndex fc)"
  have n: "nat (currentMatchIndex fc) < length old" using assms(2,3) by linarith
  have g: "arrayGet (matches fc) (currentMatchIndex fc) = Some ?m"
    using assms n by (simp add: arrayGet_def nth_append)
  have r: "sortMatchesAndFixIndex fc
     = fc\<lparr>matches := arraySort ?cmp (matches fc),
          currentMatchIndex := indexOf (arraySort ?cmp (matches fc)) ?m\<rparr>"
    using assms(2) g by (simp add: sortMatchesAndFixIndex_def Let_def)
  have "?m \<in> set old" using n by simp
  then have "?m \<in># mset (arraySort ?cmp (matches fc))"
    using assms(1) by (simp add: mset_arraySort)
  then have "?m \<in> set (arraySort ?cmp (matches fc))" by simp
  from indexOf_found [OF this] show ?thesis
    using assms(1) by (simp add: r mset_arraySort sorted_arraySort)
qed

theorem current_match_kept_witness:
  "matches (sortMatchesAndFixIndex
      (newFindController\<lparr>
         objects := (\<lambda>r. if r = 0 then \<lparr>pageNumber = 2, startOffset = 10, endOffset = 13, matchText = ''abc''\<rparr>
                        else if r = 1 then \<lparr>pageNumber = 1, startOffset = 5, endOffset = 8, matchText = ''abc''\<rparr>
                        else \<lparr>pageNumber = 1, startOffset = 20, endOffset = 23, matchText = ''abc''\<rparr>),
         nextRef := 3, matches := [0, 1, 2], currentMatchIndex := 0\<rparr>)) = [1, 2, 0]
   \<and> currentMatchIndex (sortMatchesAndFixIndex
      (newFindController\<lparr>
         objects := (\<lambda>r. if r = 0 then \<lparr>pageNumber = 2, startOffset = 10, endOffset = 13, matchText = ''abc''\<rparr>
                        else if r = 1 then \<lparr>pageNumber = 1, startOffset = 5, endOffset = 8, matchText = ''abc''\<rparr>
                        else \<lparr>pageNumber = 1, startOffset = 20, endOffset = 23, matchText = ''abc''\<rparr>),
         nextRef := 3, matches := [0, 1, 2], currentMatchIndex := 0\<rparr>)) = 2"
proof -
  let ?fc = "newFindController\<lparr>
         objects := (\<lambda>r. if r = 0 then \<lparr>pageNumber = 2, startOffset = 10, endOffset = 13, matchText = ''abc''\<rparr>
                        else if r = 1 then \<lparr>pageNumber = 1, startOffset = 5, endOffset = 8, matchText = ''abc''\<rparr>
                        else \<lparr>pageNumber = 1, startOffset = 20, endOffset = 23, matchText = ''abc''\<rparr>),
         nextRef := 3, matches := [0, 1, 2], currentMatchIndex := 0\<rparr>"
  have m: "matches (sortMatchesAndFixIndex ?fc) = [1, 2, 0]"
    by (simp add: newFindController_def sortMatchesAndFixIndex_def Let_def arrayGet_def
        arraySort_def compareMatches_def)
  have i: "currentMatchIndex (sortMatchesAndFixIndex ?fc) = 2"
    by (simp add: newFindController_def sortMatchesAndFixIndex_def Let_def arrayGet_def
        arraySort_def compareMatches_def indexOf_def)
  have "matches ?fc = [0] @ [1, 2]" "0 \<le> currentMatchIndex ?fc"
    "currentMatchIndex ?fc < int (length [0::ref])"
    by simp_all
  from current_match_kept [OF this] m i show ?thesis by simp
qed

subsection \<open>Stepping through the matches\<close>

lemma pushMatch_fields [simp]:
  "query (pushMatch m fc) = query fc" "caseSensitive (pushMatch m fc) = caseSensitive fc"
  "entireWord (pushMatch m fc) = entireWord fc"
  by (simp_all add: pushMatch_def)

lemma foldl_pushMatch_query:
  "query (foldl (\<lambda>fc' (s, e). pushMatch (mk s e) fc') fc hits) = query fc"
  by (induction hits arbitrary: fc) (auto)

lemma searchPage_query [simp]: "query (searchPage scan pageNum fc) = query fc"
  by (simp add: searchPage_def foldl_pushMatch_query split: option.splits)

lemma searchExtractedPages_query [simp]: "query (searchExtractedPages scan fc) = query fc"
proof -
  have "query (foldl (\<lambda>fc' pageNum. searchPage scan pageNum fc') fc0 ps) = query fc0" for fc0 ps
    by (induction ps arbitrary: fc0) simp_all
  then show ?thesis by (simp add: searchExtractedPages_def)
qed

lemma ensureTextExtraction_fields [simp]:
  "query (ensureTextExtraction vp fc) = query fc"
  "matches (ensureTextExtraction vp fc) = matches fc"
  "currentMatchIndex (ensureTextExtraction vp fc) = currentMatchIndex fc"
  by (simp_all add: ensureTextExtraction_def split: option.splits)

lemma sortMatchesAndFixIndex_query [simp]: "query (sortMatchesAndFixIndex fc) = query fc"
  by (simp add: sortMatchesAndFixIndex_def Let_def split: option.splits)

lemma find'_query [simp]: "query (find' scan vp q options fc) = q"
  by (simp add: find'_def Let_def clearMatches_def)

lemma find'_empty_query: "matches (find' scan vp [] options fc) = []"
  by (simp add: find'_def Let_def clearMatches_def)

lemma controllerStates_query:
  "controllerStates scan fc \<Longrightarrow> matches fc \<noteq> [] \<Longrightarrow> query fc \<noteq> []"
proof (induction rule: controllerStates.induct)
  case created
  then show ?case by (simp add: newFindController_def)
next
  case (document fc numPages)
  then show ?case by (simp add: setDocument_def)
next
  case (found fc vp q options)
  then show ?case by (cases "q = []") (simp_all add: find'_empty_query)
next
  case (extracted fc pageNum pageText)
  then show ?case by (auto simp: pageExtracted_def Let_def split: if_splits)
next
  case (finished fc)
  then show ?case by (simp add: extractionFinished_def)
next
  case (destroyed fc)
  then show ?case by (simp add: destroy_def)
qed

text \<open>
  Claim C5. In every state of the controller with a match list that is not empty:
  \<open>findNext\<close> at the last index goes to index 0 with state \<open>WRAPPED\<close>; \<open>findPrevious\<close> at
  index 0 goes to the last index with state \<open>WRAPPED\<close>; a step that stays inside the list
  changes the index by one and sets \<open>FOUND\<close>. The match list itself is not changed.
\<close>

theorem find_navigation_wraps:
  assumes "controllerStates scan fc" and "matches fc \<noteq> []"
  shows "(currentMatchIndex fc = int (length (matches fc)) - 1 \<longrightarrow>
            currentMatchIndex (findNext scan vp fc) = 0 \<and> state (findNext scan vp fc) = WRAPPED)
       \<and> (currentMatchIndex fc = 0 \<longrightarrow>
            currentMatchIndex (findPrevious scan vp fc) = int (length (matches fc)) - 1
            \<and> state (findPrevious scan vp fc) = WRAPPED)
       \<and> (currentMatchIndex fc + 1 < int (length (matches fc)) \<longrightarrow>
            currentMatchIndex (findNext scan vp fc) = currentMatchIndex fc + 1
            \<and> state (findNext scan vp fc) = FOUND)
       \<and> (0 \<le> currentMatchIndex fc - 1 \<longrightarrow>
            currentMatchIndex (findPrevious scan vp fc) = currentMatchIndex fc - 1
            \<and> state (findPrevious scan vp fc) = FOUND)
       \<and> matches (findNext scan vp fc) = matches fc
       \<and> matches (findPrevious scan vp fc) = matches fc"
proof -
  from assms have q: "query fc \<noteq> []" by (rule controllerStates_query)
  show ?thesis
    using q assms(2)
    by (simp add: findNext_def findPrevious_def find'_def Let_def)
qed

theorem find_navigation_wraps_witness:
  "matches (findPrevious (\<lambda>q cs ew t. [(0, 1), (2, 3), (4, 5)])
       \<lparr>first_page = Some 1, last_page = Some 1, scrollDirection = ''down''\<rparr>
       (find' (\<lambda>q cs ew t. [(0, 1), (2, 3), (4, 5)])
          \<lparr>first_page = Some 1, last_page = Some 1, scrollDirection = ''down''\<rparr> ''a''
          \<lparr>opt_caseSensitive = None, opt_entireWord = None, opt_highlightAll = None,
            opt_findPrevious = None\<rparr>
          (pageExtracted (\<lambda>q cs ew t. [(0, 1), (2, 3), (4, 5)]) 1 ''a.a.a''
             (setDocument 1 newFindController)))) = [0, 1, 2]
   \<and> currentMatchIndex (findPrevious (\<lambda>q cs ew t. [(0, 1), (2, 3), (4, 5)])
       \<lparr>first_page = Some 1, last_page = Some 1, scrollDirection = ''down''\<rparr>
       (find' (\<lambda>q cs ew t. [(0, 1), (2, 3), (4, 5)])
          \<lparr>first_page = Some 1, last_page = Some 1, scrollDirection = ''down''\<rparr> ''a''
          \<lparr>opt_caseSensitive = None, opt_entireWord = None, opt_highlightAll = None,
            opt_findPrevious = None\<rparr>
          (pageExtracted (\<lambda>q cs ew t. [(0, 1), (2, 3), (4, 5)]) 1 ''a.a.a''
             (setDocument 1 newFindController)))) = 2
   \<and> currentMatchIndex (findNext (\<lambda>q cs ew t. [(0, 1), (2, 3), (4, 5)])
       \<lparr>first_page = Some 1, last_page = Some 1, scrollDirection = ''down''\<rparr>
       (findPrevious (\<lambda>q cs ew t. [(0, 1), (2, 3), (4, 5)])
       \<lparr>first_page = Some 1, last_page = Some 1, scrollDirection = ''down''\<rparr>
       (find' (\<lambda>q cs ew t. [(0, 1), (2, 3), (4, 5)])
          \<lparr>first_page = Some 1, last_page = Some 1, scrollDirection = ''down''\<rparr> ''a''
          \<lparr>opt_caseSensitive = None, opt_entireWord = None, opt_highlightAll = None,
            opt_findPrevious = None\<rparr>
          (pageExtracted (\<lambda>q cs ew t. [(0, 1), (2, 3), (4, 5)]) 1 ''a.a.a''
             (setDocument 1 newFindController))))) = 0
   \<and> state (findNext (\<lambda>q cs ew t. [(0, 1), (2, 3), (4, 5)])
       \<lparr>first_page = Some 1, last_page = Some 1, scrollDirection = ''down''\<rparr>
       (findPrevious (\<lambda>q cs ew t. [(0, 1), (2, 3), (4, 5)])
       \<lparr>first_page = Some 1, last_page = Some 1, scrollDirection = ''down''\<rparr>
       (find' (\<lambda>q cs ew t. [(0, 1), (2, 3), (4, 5)])
          \<lparr>first_page = Some 1, last_page = Some 1, scrollDirection = ''down''\<rparr> ''a''
          \<lparr>opt_caseSensitive = None, opt_entireWord = None, opt_highlightAll = None,
            opt_findPrevious = None\<rparr>
          (pageExtracted (\<lambda>q cs ew t. [(0, 1), (2, 3), (4, 5)]) 1 ''a.a.a''
             (setDocument 1 newFindController))))) = WRAPPED"
proof -
  let ?scan = "(\<lambda>q cs ew t. [(0, 1), (2, 3), (4, 5)]) :: scanner"
  let ?vp = "\<lparr>first_page = Some 1, last_page = Some 1, scrollDirection = ''down''\<rparr>"
  let ?fc0 = "find' ?scan ?vp ''a''
          \<lparr>opt_caseSensitive = None, opt_entireWord = None, opt_highlightAll = None,
            opt_findPrevious = None\<rparr>
          (pageExtracted ?scan 1 ''a.a.a'' (setDocument 1 newFindController))"
  have r0: "controllerStates ?scan ?fc0" by (intro controllerStates.intros)
  have m0: "matches ?fc0 = [0, 1, 2]" and i0: "currentMatchIndex ?fc0 = 0"
    by (simp_all add: find'_def pageExtracted_def setDocument_def newFindController_def Let_def
        mapSet_def ensureTextExtraction_def extractionOrder_def searchExtractedPages_def
        searchPage_def pushMatch_def clearMatches_def upto_rec1)
  have n0: "matches ?fc0 \<noteq> []" by (simp add: m0)
  let ?fc1 = "findPrevious ?scan ?vp ?fc0"
  have r1: "controllerStates ?scan ?fc1"
    unfolding findPrevious_def by (intro controllerStates.intros)
  have m1: "matches ?fc1 = [0, 1, 2]" and i1: "currentMatchIndex ?fc1 = 2"
    using find_navigation_wraps [OF r0 n0, of ?vp] by (simp_all add: m0 i0)
  have n1: "matches ?fc1 \<noteq> []" by (simp add: m1)
  show ?thesis
    using find_navigation_wraps [OF r1 n1, of ?vp] by (simp add: m1 i1)
qed


section \<open>Properties of the coordinate transformer\<close>

lemmas geometry_defs =
  selectionRectsToQuads_def Let_def pdfFilter_def toPdfRect_def minSize_def
  mergeOverlappingRects_def onScreenFilter_def mergeLoop.simps rectToQuad_def scaleRect_def
  shouldMerge_def mergeRects_def

subsection \<open>From the screen to the page and back\<close>

text \<open>
  Claim C9. For a page whose container is known and a positive display scale,
  \<open>screenToPdf\<close> answers a point of the page, and \<open>pdfToScreen\<close> of that point is the
  position of the pointer event again (exactly, the numbers being real numbers).
\<close>

theorem screen_round_trip:
  assumes "getPageContainer g pageNum = Some r" and "0 < getScale g"
  shows "\<exists>d. screenToPdf g event pageNum = Some (d, pageNum)
           \<and> pdfToScreen g (xc d) (yc d) pageNum = Some \<lparr>xc = clientX event, yc = clientY event\<rparr>"
  using assms by (simp add: screenToPdf_def pdfToScreen_def Let_def)

theorem screen_round_trip_witness:
  "screenToPdf
      \<lparr>getPageContainer = [3 \<mapsto> \<lparr>left = 40, right = 640, top' = 100, bottom = 900\<rparr>], getScale = 3 / 2\<rparr>
      \<lparr>clientX = 100, clientY = 130\<rparr> 3 = Some (\<lparr>xc = 40, yc = 20\<rparr>, 3)
   \<and> pdfToScreen
      \<lparr>getPageContainer = [3 \<mapsto> \<lparr>left = 40, right = 640, top' = 100, bottom = 900\<rparr>], getScale = 3 / 2\<rparr>
      40 20 3 = Some \<lparr>xc = 100, yc = 130\<rparr>"
proof -
  let ?g = "\<lparr>getPageContainer = [3 \<mapsto> \<lparr>left = 40, right = 640, top' = 100, bottom = 900\<rparr>],
             getScale = 3 / 2\<rparr>"
  have c: "getPageContainer ?g 3 = Some \<lparr>left = 40, right = 640, top' = 100, bottom = 900\<rparr>"
    and p: "0 < getScale ?g"
    by simp_all
  have e: "screenToPdf ?g \<lparr>clientX = 100, clientY = 130\<rparr> 3 = Some (\<lparr>xc = 40, yc = 20\<rparr>, 3)"
    by (simp add: screenToPdf_def Let_def)
  from screen_round_trip [OF c p, of "\<lparr>clientX = 100, clientY = 130\<rparr>"] e
  show ?thesis by auto
qed

subsection \<open>The merge of rectangles\<close>

lemma mergePass_flag: "snd (mergePass working result True)"
  by (induction working arbitrary: result) (auto split: option.splits)

lemma mergeIntoResult_None: "mergeIntoResult r result = None \<longleftrightarrow> (\<forall>e \<in> set result. \<not> shouldMerge r e)"
  by (induction result) auto

lemma mergePass_unmerged:
  "mergePass working result merged = (res, False) \<Longrightarrow> res = result @ working"
proof (induction working arbitrary: result merged)
  case Nil
  then show ?case by simp
next
  case (Cons r working)
  show ?case
  proof (cases "mergeIntoResult r result")
    case None
    with Cons.prems have "mergePass working (result @ [r]) merged = (res, False)" by simp
    from Cons.IH [OF this] show ?thesis by simp
  next
    case (Some result')
    with Cons.prems have "mergePass working result' True = (res, False)" by simp
    with mergePass_flag [of working result'] show ?thesis by simp
  qed
qed

lemma mergePass_separate:
  "mergePass working result merged = (res, False) \<Longrightarrow>
   sorted_wrt (\<lambda>existing r. \<not> shouldMerge r existing) result \<Longrightarrow>
   sorted_wrt (\<lambda>existing r. \<not> shouldMerge r existing) (result @ working)"
proof (induction working arbitrary: result merged)
  case Nil
  then show ?case by simp
next
  case (Cons r working)
  show ?case
  proof (cases "mergeIntoResult r result")
    case None
    with Cons.prems have p: "mergePass working (result @ [r]) merged = (res, False)" by simp
    from None Cons.prems(2)
    have "sorted_wrt (\<lambda>existing r. \<not> shouldMerge r existing) (result @ [r])"
      by (simp add: sorted_wrt_append mergeIntoResult_None)
    from Cons.IH [OF p this] show ?thesis by simp
  next
    case (Some result')
    with Cons.prems have "mergePass working result' True = (res, False)" by simp
    with mergePass_flag [of working result'] show ?thesis by simp
  qed
qed

lemma mergeLoop_fixed: "mergePass (mergeLoop working) [] False = (mergeLoop working, False)"
proof (induction working rule: mergeLoop.induct)
  case (1 working)
  obtain result merged where p: "mergePass working [] False = (result, merged)"
    by (cases "mergePass working [] False")
  show ?case
  proof (cases merged)
    case True
    with p have "mergeLoop working = mergeLoop result" by (simp add: mergeLoop.simps [of working])
    moreover from True have "mergePass (mergeLoop result) [] False = (mergeLoop result, False)"
      by (rule 1 [OF p [symmetric]])
    ultimately show ?thesis by simp
  next
    case False
    with p mergePass_unmerged [of working "[]" False result] have "result = working" by simp
    with p False have "mergeLoop working = working" by (simp add: mergeLoop.simps [of working])
    with p False \<open>result = working\<close> show ?thesis by simp
  qed
qed

lemma mergeLoop_idem: "mergeLoop (mergeLoop working) = mergeLoop working"
  by (simp add: mergeLoop.simps [of "mergeLoop working"] mergeLoop_fixed)

lemma mergeLoop_separate:
  "sorted_wrt (\<lambda>existing r. \<not> shouldMerge r existing) (mergeLoop working)"
  using mergePass_separate [OF mergeLoop_fixed [of working]] by simp

lemma quadBounds_rectToQuad: "quadBounds (rectToQuad r) = r"
  by (simp add: quadBounds_def rectToQuad_def)

text \<open>
  Claim C7. \<open>_mergeOverlappingRects\<close> applied to its own result gives that result again,
  also when the result is first turned into quads and the quads back into rectangles; in
  the result no rectangle satisfies the merge test with a rectangle before it.
\<close>

theorem merge_fixed_point:
  "mergeOverlappingRects (mergeOverlappingRects rects) = mergeOverlappingRects rects
   \<and> mergeOverlappingRects (map quadBounds (map rectToQuad (mergeOverlappingRects rects)))
       = mergeOverlappingRects rects
   \<and> sorted_wrt (\<lambda>existing r. \<not> shouldMerge r existing) (mergeOverlappingRects rects)"
proof -
  have a: "mergeOverlappingRects (mergeOverlappingRects rects) = mergeOverlappingRects rects"
    by (simp add: mergeOverlappingRects_def mergeLoop_idem)
  have "map quadBounds (map rectToQuad rs) = rs" for rs
    by (induction rs) (simp_all add: quadBounds_rectToQuad)
  with a show ?thesis by (simp add: mergeOverlappingRects_def mergeLoop_separate)
qed

theorem merge_fixed_point_witness:
  "mergeOverlappingRects
     [\<lparr>left = 0, right = 10, top' = 0, bottom = 10\<rparr>,
      \<lparr>left = 20, right = 30, top' = 0, bottom = 10\<rparr>,
      \<lparr>left = 9, right = 21, top' = 0, bottom = 10\<rparr>]
     = [\<lparr>left = 0, right = 30, top' = 0, bottom = 10\<rparr>]
   \<and> mergeOverlappingRects [\<lparr>left = 0, right = 30, top' = 0, bottom = 10\<rparr>]
     = [\<lparr>left = 0, right = 30, top' = 0, bottom = 10\<rparr>]"
proof -
  have e: "mergeOverlappingRects
     [\<lparr>left = 0, right = 10, top' = 0, bottom = 10\<rparr>,
      \<lparr>left = 20, right = 30, top' = 0, bottom = 10\<rparr>,
      \<lparr>left = 9, right = 21, top' = 0, bottom = 10\<rparr>]
     = [\<lparr>left = 0, right = 30, top' = 0, bottom = 10\<rparr>]"
    by (simp add: mergeOverlappingRects_def mergeLoop.simps shouldMerge_def mergeRects_def)
  from merge_fixed_point [of "[\<lparr>left = 0, right = 10, top' = 0, bottom = 10\<rparr>,
      \<lparr>left = 20, right = 30, top' = 0, bottom = 10\<rparr>,
      \<lparr>left = 9, right = 21, top' = 0, bottom = 10\<rparr>]"] e
  show ?thesis by simp
qed

subsection \<open>The display scale\<close>

lemma toPdfRect_scaled:
  assumes "0 < s1" and "0 < s2"
  shows "toPdfRect (scaleRect (s2 / s1) pageRect) s2 (scaleRect (s2 / s1) r) = toPdfRect pageRect s1 r"
  using assms by (simp add: toPdfRect_def scaleRect_def field_simps)

lemma size_on_screen:
  assumes "1 \<le> (s::real)" and "\<not> (b - a) / s < 1"
  shows "\<not> b - a < 1"
proof -
  from assms(2) have "1 \<le> (b - a) / s" by linarith
  with assms(1) have "s \<le> b - a" by (simp add: le_divide_eq)
  with assms(1) show ?thesis by simp
qed

lemma size_on_scaled_screen:
  assumes "1 \<le> (s1::real)" and "1 \<le> s2" and "\<not> (b - a) / s1 < 1"
  shows "\<not> s2 / s1 * b - s2 / s1 * a < 1"
proof -
  from assms(3) have "1 \<le> (b - a) / s1" by linarith
  with assms(2) have "1 * 1 \<le> s2 * ((b - a) / s1)" by (intro mult_mono) simp_all
  also have "s2 * ((b - a) / s1) = s2 / s1 * b - s2 / s1 * a"
    by (simp add: right_diff_distrib diff_divide_distrib)
  finally show ?thesis by simp
qed

lemma onScreenFilter_scaleRect:
  assumes "0 < k"
    and "\<not> right r - left r < 1" and "\<not> bottom r - top' r < 1"
    and "\<not> k * right r - k * left r < 1" and "\<not> k * bottom r - k * top' r < 1"
  shows "onScreenFilter (scaleRect k pageRect) (scaleRect k r) = onScreenFilter pageRect r"
  using assms by (simp add: onScreenFilter_def scaleRect_def Let_def)

lemma rectArray_scaled_on_screen:
  assumes "0 < s1" and "0 < s2"
    and "\<forall>r \<in> set rects. pdfFilter (toPdfRect pageRect s1 r)
           \<longrightarrow> atLeastOnePixel r \<and> atLeastOnePixel (scaleRect (s2 / s1) r)"
  shows "filter pdfFilter (map (toPdfRect (scaleRect (s2 / s1) pageRect) s2)
           (filter (onScreenFilter (scaleRect (s2 / s1) pageRect)) (map (scaleRect (s2 / s1)) rects)))
       = filter pdfFilter (map (toPdfRect pageRect s1) (filter (onScreenFilter pageRect) rects))"
  using assms(3)
proof (induction rects)
  case Nil
  show ?case by simp
next
  case (Cons r rects)
  from assms(1,2) have k: "0 < s2 / s1" by simp
  from Cons.prems have
    "\<forall>r \<in> set rects. pdfFilter (toPdfRect pageRect s1 r)
           \<longrightarrow> atLeastOnePixel r \<and> atLeastOnePixel (scaleRect (s2 / s1) r)" by simp
  note ih = Cons.IH [OF this]
  show ?case
  proof (cases "pdfFilter (toPdfRect pageRect s1 r)")
    case True
    with Cons.prems have a: "atLeastOnePixel r" and b: "atLeastOnePixel (scaleRect (s2 / s1) r)"
      by simp_all
    from a have a': "\<not> right r - left r < 1" "\<not> bottom r - top' r < 1"
      by (simp_all add: atLeastOnePixel_def)
    from b have b': "\<not> s2 / s1 * right r - s2 / s1 * left r < 1"
      "\<not> s2 / s1 * bottom r - s2 / s1 * top' r < 1"
      by (simp_all add: atLeastOnePixel_def scaleRect_def)
    from ih True onScreenFilter_scaleRect [OF k a' b', of pageRect]
      toPdfRect_scaled [OF assms(1,2), of pageRect r]
    show ?thesis by simp
  next
    case False
    with ih toPdfRect_scaled [OF assms(1,2), of pageRect r] show ?thesis by simp
  qed
qed

lemma kept_rects_on_screen:
  assumes "1 \<le> s1" and "1 \<le> s2" and "pdfFilter (toPdfRect pageRect s1 r)"
  shows "atLeastOnePixel r \<and> atLeastOnePixel (scaleRect (s2 / s1) r)"
proof -
  from assms(3) have w: "\<not> (right r - left r) / s1 < 1" and h: "\<not> (bottom r - top' r) / s1 < 1"
    by (auto simp: pdfFilter_def toPdfRect_def minSize_def Let_def diff_divide_distrib split: if_splits)
  from size_on_screen [OF assms(1) w] size_on_screen [OF assms(1) h]
    size_on_scaled_screen [OF assms(1,2) w] size_on_scaled_screen [OF assms(1,2) h]
  show ?thesis by (simp add: atLeastOnePixel_def scaleRect_def)
qed

text \<open>
  Claim C8, as the code has it. The first filter of \<open>selectionRectsToQuads\<close> drops a
  client rectangle that is less than one pixel wide or high on the screen, before the
  division by the scale; all other thresholds are applied to PDF coordinates. So the quads
  are the same at two positive display scales (the rectangles and the page container
  scaled from scale \<open>getScale g\<close> to scale \<open>s2\<close>) whenever every rectangle that passes
  the filter on PDF coordinates is at least one pixel wide and high on both screens; that
  is so for all rectangles when both scales are at least 1. The numbers are real numbers:
  the equality is one of exact arithmetic.
\<close>

theorem scale_independent_on_screen:
  assumes "getPageContainer g pageNum = Some pageRect"
    and "0 < getScale g" and "0 < s2"
  shows "((\<forall>r \<in> set rects. pdfFilter (toPdfRect pageRect (getScale g) r)
             \<longrightarrow> atLeastOnePixel r \<and> atLeastOnePixel (scaleRect (s2 / getScale g) r))
          \<longrightarrow> selectionRectsToQuads
                \<lparr>getPageContainer =
                   (getPageContainer g)(pageNum \<mapsto> scaleRect (s2 / getScale g) pageRect),
                 getScale = s2\<rparr>
                (map (scaleRect (s2 / getScale g)) rects) pageNum
              = selectionRectsToQuads g rects pageNum)
       \<and> (1 \<le> getScale g \<and> 1 \<le> s2
          \<longrightarrow> selectionRectsToQuads
                \<lparr>getPageContainer =
                   (getPageContainer g)(pageNum \<mapsto> scaleRect (s2 / getScale g) pageRect),
                 getScale = s2\<rparr>
                (map (scaleRect (s2 / getScale g)) rects) pageNum
              = selectionRectsToQuads g rects pageNum)"
proof (intro conjI impI)
  assume "\<forall>r \<in> set rects. pdfFilter (toPdfRect pageRect (getScale g) r)
             \<longrightarrow> atLeastOnePixel r \<and> atLeastOnePixel (scaleRect (s2 / getScale g) r)"
  from rectArray_scaled_on_screen [OF assms(2,3) this] assms(1)
  show "selectionRectsToQuads
                \<lparr>getPageContainer =
                   (getPageContainer g)(pageNum \<mapsto> scaleRect (s2 / getScale g) pageRect),
                 getScale = s2\<rparr>
                (map (scaleRect (s2 / getScale g)) rects) pageNum
              = selectionRectsToQuads g rects pageNum"
    by (simp add: selectionRectsToQuads_def Let_def)
next
  assume "1 \<le> getScale g \<and> 1 \<le> s2"
  then have "\<forall>r \<in> set rects. pdfFilter (toPdfRect pageRect (getScale g) r)
             \<longrightarrow> atLeastOnePixel r \<and> atLeastOnePixel (scaleRect (s2 / getScale g) r)"
    using kept_rects_on_screen [of "getScale g" s2 pageRect] by blast
  from rectArray_scaled_on_screen [OF assms(2,3) this] assms(1)
  show "selectionRectsToQuads
                \<lparr>getPageContainer =
                   (getPageContainer g)(pageNum \<mapsto> scaleRect (s2 / getScale g) pageRect),
                 getScale = s2\<rparr>
                (map (scaleRect (s2 / getScale g)) rects) pageNum
              = selectionRectsToQuads g rects pageNum"
    by (simp add: selectionRectsToQuads_def Let_def)
qed

theorem scale_independent_on_screen_witness:
  "selectionRectsToQuads
     \<lparr>getPageContainer = [1 \<mapsto> \<lparr>left = 0, right = 1000, top' = 0, bottom = 1000\<rparr>], getScale = 1\<rparr>
     [\<lparr>left = 10, right = 14, top' = 10, bottom = 30\<rparr>] 1
     = [\<lparr>p1 = \<lparr>xc = 10, yc = 10\<rparr>, p2 = \<lparr>xc = 14, yc = 10\<rparr>,
         p3 = \<lparr>xc = 10, yc = 30\<rparr>, p4 = \<lparr>xc = 14, yc = 30\<rparr>\<rparr>]
   \<and> selectionRectsToQuads
     \<lparr>getPageContainer = [1 \<mapsto> \<lparr>left = 0, right = 500, top' = 0, bottom = 500\<rparr>], getScale = 1 / 2\<rparr>
     [\<lparr>left = 5, right = 7, top' = 5, bottom = 15\<rparr>] 1
     = [\<lparr>p1 = \<lparr>xc = 10, yc = 10\<rparr>, p2 = \<lparr>xc = 14, yc = 10\<rparr>,
         p3 = \<lparr>xc = 10, yc = 30\<rparr>, p4 = \<lparr>xc = 14, yc = 30\<rparr>\<rparr>]"
proof -
  let ?g = "\<lparr>getPageContainer = [1 \<mapsto> \<lparr>left = 0, right = 1000, top' = 0, bottom = 1000\<rparr>],
             getScale = 1\<rparr>"
  let ?r = "\<lparr>left = 10, right = 14, top' = 10, bottom = 30\<rparr>"
  have c: "getPageContainer ?g 1 = Some \<lparr>left = 0, right = 1000, top' = 0, bottom = 1000\<rparr>"
    and s: "0 < getScale ?g" "(0::real) < 1 / 2"
    by simp_all
  have h: "\<forall>r \<in> set [?r].
      pdfFilter (toPdfRect \<lparr>left = 0, right = 1000, top' = 0, bottom = 1000\<rparr> (getScale ?g) r)
        \<longrightarrow> atLeastOnePixel r \<and> atLeastOnePixel (scaleRect (1 / 2 / getScale ?g) r)"
    by (simp add: atLeastOnePixel_def scaleRect_def)
  have e: "selectionRectsToQuads ?g [?r] 1
     = [\<lparr>p1 = \<lparr>xc = 10, yc = 10\<rparr>, p2 = \<lparr>xc = 14, yc = 10\<rparr>,
         p3 = \<lparr>xc = 10, yc = 30\<rparr>, p4 = \<lparr>xc = 14, yc = 30\<rparr>\<rparr>]"
    by (simp add: geometry_defs)
  from scale_independent_on_screen [OF c s, of "[?r]"] h
  have "selectionRectsToQuads
          \<lparr>getPageContainer = (getPageContainer ?g)(1 \<mapsto> scaleRect (1 / 2 / getScale ?g)
              \<lparr>left = 0, right = 1000, top' = 0, bottom = 1000\<rparr>), getScale = 1 / 2\<rparr>
          (map (scaleRect (1 / 2 / getScale ?g)) [?r]) 1
        = selectionRectsToQuads ?g [?r] 1"
    by blast
  with e show ?thesis by (simp add: scaleRect_def)
qed

text \<open>
  Claim C8 as it is worded fails below scale 1. A client rectangle one and a half pixels
  wide gives a quad at scale 1; shown at scale \<open>1/2\<close> the same selection is three quarters
  of a pixel wide on the screen and is dropped by the first filter, although it measures
  one and a half units in PDF coordinates.
\<close>

theorem scale_dependent_counterexample:
  "selectionRectsToQuads
     \<lparr>getPageContainer = [1 \<mapsto> \<lparr>left = 0, right = 1000, top' = 0, bottom = 1000\<rparr>], getScale = 1\<rparr>
     [\<lparr>left = 10, right = 23 / 2, top' = 10, bottom = 30\<rparr>] 1
     = [\<lparr>p1 = \<lparr>xc = 10, yc = 10\<rparr>, p2 = \<lparr>xc = 23 / 2, yc = 10\<rparr>,
         p3 = \<lparr>xc = 10, yc = 30\<rparr>, p4 = \<lparr>xc = 23 / 2, yc = 30\<rparr>\<rparr>]
   \<and> selectionRectsToQuads
     \<lparr>getPageContainer =
        [1 \<mapsto> scaleRect ((1 / 2) / 1) \<lparr>left = 0, right = 1000, top' = 0, bottom = 1000\<rparr>],
      getScale = 1 / 2\<rparr>
     (map (scaleRect ((1 / 2) / 1)) [\<lparr>left = 10, right = 23 / 2, top' = 10, bottom = 30\<rparr>]) 1
     = []"
  by (simp add: geometry_defs)

subsection \<open>Rectangles at the corner of the page\<close>

lemma rectArray_phantom:
  "filter pdfFilter (map (toPdfRect pageRect scale) (filter (onScreenFilter pageRect) rects))
   = filter pdfFilter (map (toPdfRect pageRect scale) (filter (onScreenFilter pageRect)
       (filter (\<lambda>r. \<not> ((left r - left pageRect) / scale < 1 \<and> (top' r - top' pageRect) / scale < 1)) rects)))"
  by (induction rects) (auto simp: pdfFilter_def toPdfRect_def minSize_def Let_def)

text \<open>
  Claim C10. A rectangle whose left and top edge, converted to PDF coordinates, are both
  less than 1 never reaches the merge: the result is the same as without it, and such a
  rectangle alone gives no quad, whatever its size.
\<close>

theorem phantom_rects_discarded:
  assumes "getPageContainer g pageNum = Some pageRect"
  shows "selectionRectsToQuads g rects pageNum
       = selectionRectsToQuads g
           (filter (\<lambda>r. \<not> ((left r - left pageRect) / getScale g < 1
                          \<and> (top' r - top' pageRect) / getScale g < 1)) rects) pageNum
     \<and> ((left r - left pageRect) / getScale g < 1 \<and> (top' r - top' pageRect) / getScale g < 1
          \<longrightarrow> selectionRectsToQuads g [r] pageNum = [])"
  using assms rectArray_phantom [of pageRect "getScale g" rects]
  by (simp add: selectionRectsToQuads_def Let_def pdfFilter_def toPdfRect_def minSize_def
      mergeOverlappingRects_def)

theorem phantom_rects_discarded_witness:
  "onScreenFilter \<lparr>left = 0, right = 600, top' = 0, bottom = 800\<rparr>
     \<lparr>left = 1 / 2, right = 201 / 2, top' = 1 / 2, bottom = 41 / 2\<rparr>
   \<and> selectionRectsToQuads \<lparr>getPageContainer = [1 \<mapsto> \<lparr>left = 0, right = 600, top' = 0, bottom = 800\<rparr>], getScale = 1\<rparr>
       [\<lparr>left = 1 / 2, right = 201 / 2, top' = 1 / 2, bottom = 41 / 2\<rparr>] 1 = []
   \<and> selectionRectsToQuads \<lparr>getPageContainer = [1 \<mapsto> \<lparr>left = 0, right = 600, top' = 0, bottom = 800\<rparr>], getScale = 1\<rparr>
       [\<lparr>left = 1, right = 201 / 2, top' = 1 / 2, bottom = 41 / 2\<rparr>] 1
     = [\<lparr>p1 = \<lparr>xc = 1, yc = 1 / 2\<rparr>, p2 = \<lparr>xc = 201 / 2, yc = 1 / 2\<rparr>,
         p3 = \<lparr>xc = 1, yc = 41 / 2\<rparr>, p4 = \<lparr>xc = 201 / 2, yc = 41 / 2\<rparr>\<rparr>]"
proof -
  let ?g = "\<lparr>getPageContainer = [1 \<mapsto> \<lparr>left = 0, right = 600, top' = 0, bottom = 800\<rparr>], getScale = 1\<rparr>"
  have c: "getPageContainer ?g 1 = Some \<lparr>left = 0, right = 600, top' = 0, bottom = 800\<rparr>"
    by simp
  have "selectionRectsToQuads ?g
       [\<lparr>left = 1 / 2, right = 201 / 2, top' = 1 / 2, bottom = 41 / 2\<rparr>] 1 = []"
    using phantom_rects_discarded [OF c, of "[]"
        "\<lparr>left = 1 / 2, right = 201 / 2, top' = 1 / 2, bottom = 41 / 2\<rparr>"]
    by simp
  then show ?thesis by (simp add: geometry_defs)
qed

subsection \<open>The order of the corners of a quad\<close>





















end
